theory Spec2Isabelle
  imports Main "HOL-Library.Multiset"
begin

section \<open>Python text primitives\<close>

text \<open>
  A Python \<open>str\<close> is modelled as a \<open>string\<close>; a character is one code point below 256.
  \<open>py_isspace\<close> is \<open>str.isspace\<close> on that range: TAB, LF, VT, FF, CR, the four
  separators 0x1C..0x1F, SPACE, NEL (0x85) and NBSP (0xA0).
\<close>

definition LF :: char where
  "LF = CHR 0x0A"

definition CR :: char where
  "CR = CHR 0x0D"

definition py_isspace :: "char \<Rightarrow> bool" where
  "py_isspace c =
     (let n = (of_char c :: nat)
      in (9 \<le> n \<and> n \<le> 13) \<or> (28 \<le> n \<and> n \<le> 32) \<or> n = 133 \<or> n = 160)"

definition strip :: "string \<Rightarrow> string" where
  \<comment> \<open>\<open>s.strip()\<close>\<close>
  "strip s = rev (dropWhile py_isspace (rev (dropWhile py_isspace s)))"

definition startswith :: "string \<Rightarrow> string \<Rightarrow> bool" where
  \<comment> \<open>\<open>s.startswith(p)\<close>\<close>
  "startswith s p = (take (length p) s = p)"

definition replace_space :: "string \<Rightarrow> string" where
  \<comment> \<open>\<open>s.replace(" ", "")\<close>\<close>
  "replace_space s = filter (\<lambda>c. c \<noteq> CHR '' '') s"

fun universal_newlines :: "string \<Rightarrow> string" where
  \<comment> \<open>text mode with \<open>newline=None\<close>: CR LF and a lone CR are read as LF\<close>
  "universal_newlines [] = []"
| "universal_newlines [c] = [if c = CR then LF else c]"
| "universal_newlines (c # d # ds) =
     (if c = CR \<and> d = LF then LF # universal_newlines ds
      else if c = CR then LF # universal_newlines (d # ds)
      else c # universal_newlines (d # ds))"

fun iter_lines :: "string \<Rightarrow> string list" where
  \<comment> \<open>\<open>for raw_line in fh\<close>: each line keeps its LF; the last one may have none\<close>
  "iter_lines [] = []"
| "iter_lines (c # cs) =
     (if c = LF then [c] # iter_lines cs
      else (case iter_lines cs of
              [] \<Rightarrow> [[c]]
            | l # ls \<Rightarrow> (c # l) # ls))"

definition file_lines :: "string \<Rightarrow> string list" where
  "file_lines text = iter_lines (universal_newlines text)"


section \<open>FASTA Reader: \<open>load_fasta_entries\<close> (fold\_gpu/array/run\_fold\_parallel.py)\<close>

datatype error =
    FileNotFoundError
  | ValueError
  | AttributeError
  | IndexError
  | KeyError
  | ReadError

record fasta_state =
  descs_list :: "string list"
  seqs_list :: "string list"
  current_desc :: "string option"
  current_chunks :: "string list"

definition fasta_init :: fasta_state where
  "fasta_init =
     \<lparr>descs_list = [], seqs_list = [], current_desc = None, current_chunks = []\<rparr>"

definition flush_record :: "fasta_state \<Rightarrow> fasta_state" where
  \<comment> \<open>\<open>if current_desc is not None: ... append\<close>\<close>
  "flush_record st =
     (case current_desc st of
        None \<Rightarrow> st
      | Some d \<Rightarrow>
          st\<lparr>descs_list := descs_list st @ [d],
             seqs_list := seqs_list st @ [replace_space (concat (current_chunks st))]\<rparr>)"

definition fasta_step :: "fasta_state \<Rightarrow> string \<Rightarrow> fasta_state" where
  \<comment> \<open>one iteration of the \<open>for raw_line in fh\<close> loop\<close>
  "fasta_step st raw_line =
     (let line = strip raw_line
      in if line = [] \<or> startswith line '';'' \<or> startswith line ''#'' then st
         else if startswith line ''>'' then
           (flush_record st)\<lparr>current_desc := Some (strip (drop 1 line)),
                              current_chunks := []\<rparr>
         else st\<lparr>current_chunks := current_chunks st @ [line]\<rparr>)"

definition parse_fasta :: "string \<Rightarrow> string list \<times> string list" where
  \<comment> \<open>the body of \<open>load_fasta_entries\<close> on the text of the file; returns
      \<open>(seqs_list, descs_list)\<close> as the source does\<close>
  "parse_fasta text =
     (let st = flush_record (foldl fasta_step fasta_init (file_lines text))
      in (seqs_list st, descs_list st))"

type_synonym filesystem = "string \<Rightarrow> string option"

definition load_fasta_entries ::
  "filesystem \<Rightarrow> string \<Rightarrow> error + (string list \<times> string list)" where
  \<comment> \<open>\<open>fs path = Some text\<close> when \<open>path\<close> is an existing regular file holding \<open>text\<close>\<close>
  "load_fasta_entries fs fasta_path =
     (case fs fasta_path of
        None \<Rightarrow> Inl FileNotFoundError
      | Some text \<Rightarrow> Inr (parse_fasta text))"


subsection \<open>The records of a file, in the words of the specification\<close>

definition header_line :: "string \<Rightarrow> bool" where
  "header_line l = startswith l ''>''"

definition blank_or_comment :: "string \<Rightarrow> bool" where
  "blank_or_comment l = (l = [] \<or> startswith l '';'' \<or> startswith l ''#'')"

fun group_records :: "string list \<Rightarrow> string list \<times> (string \<times> string list) list" where
  \<comment> \<open>the lines before the first header, and each header with the lines that follow it
      up to the next header\<close>
  "group_records [] = ([], [])"
| "group_records (l # ls) =
     (let (pre, recs) = group_records ls
      in if header_line l then ([], (l, pre) # recs) else (l # pre, recs))"

definition file_records :: "string \<Rightarrow> (string \<times> string list) list" where
  "file_records text = snd (group_records (map strip (file_lines text)))"

definition record_sequence :: "(char \<Rightarrow> bool) \<Rightarrow> string \<times> string list \<Rightarrow> string" where
  \<comment> \<open>the non-blank, non-comment lines of a record, concatenated, without the characters
      \<open>drop_char\<close> selects\<close>
  "record_sequence drop_char r =
     filter (\<lambda>c. \<not> drop_char c) (concat (filter (\<lambda>l. \<not> blank_or_comment l) (snd r)))"

definition pending :: "fasta_state \<Rightarrow> string list \<Rightarrow> string list" where
  "pending st pre =
     (case current_desc st of
        None \<Rightarrow> []
      | Some d \<Rightarrow>
          [replace_space (concat (current_chunks st @ filter (\<lambda>l. \<not> blank_or_comment l) pre))])"

definition pending_desc :: "fasta_state \<Rightarrow> string list" where
  "pending_desc st = (case current_desc st of None \<Rightarrow> [] | Some d \<Rightarrow> [d])"


section \<open>Shared Append Log (fold\_gpu/array/run\_fold\_parallel.py)\<close>

definition write_to_shared_file :: "string \<Rightarrow> string \<Rightarrow> filesystem \<Rightarrow> filesystem" where
  \<comment> \<open>\<open>open(shared_file, 'a')\<close> creates the file when it is missing; \<open>f.write(message)\<close>
      appends. The lock has no effect on a single writer.\<close>
  "write_to_shared_file message shared_file fs =
     fs(shared_file \<mapsto> (case fs shared_file of None \<Rightarrow> message | Some old \<Rightarrow> old @ message))"

definition out_str ::
  "string \<Rightarrow> string \<Rightarrow> string \<Rightarrow> string \<Rightarrow> string \<Rightarrow> string \<Rightarrow> string \<Rightarrow> string" where
  \<comment> \<open>the f-string of \<open>__main__\<close>; \<open>ptm\<close>, \<open>plddt\<close> and \<open>plddt_mean\<close> are the texts that
      \<open>{ptm}\<close>, \<open>{np.array2string(plddt)}\<close> and \<open>{plddt.mean()}\<close> render\<close>
  "out_str file description entry ptm plddt plddt_mean pdb_str =
     file @ '';;; '' @ description @ '';;; '' @ entry @ '';;; '' @ ptm @ '';;; ''
       @ plddt @ '';;; '' @ plddt_mean @ '';;; '' @ pdb_str @ '' ~~~'' @ [LF]"

definition log_record :: "filesystem \<Rightarrow> string \<Rightarrow> string \<Rightarrow> string \<Rightarrow> string \<Rightarrow> string
    \<Rightarrow> string \<Rightarrow> string \<Rightarrow> filesystem" where
  \<comment> \<open>\<open>write_to_shared_file(out_str, f"{file}.fdat")\<close>\<close>
  "log_record fs file description entry ptm plddt plddt_mean pdb_str =
     write_to_shared_file (out_str file description entry ptm plddt plddt_mean pdb_str)
       (file @ ''.fdat'') fs"

fun py_join :: "string \<Rightarrow> string list \<Rightarrow> string" where
  \<comment> \<open>\<open>sep.join(xs)\<close>, the reading of "fields joined by a separator"\<close>
  "py_join sep [] = []"
| "py_join sep [x] = x"
| "py_join sep (x # y # ys) = x @ sep @ py_join sep (y # ys)"


section \<open>Regular expressions of the Artifact Matcher\<close>

text \<open>
  The patterns of the collector use literal characters, \<open>.\<close>, \<open>\d\<close>, the greedy
  repetitions \<open>*\<close> and \<open>+\<close> of a single character class, one capturing group and
  \<open>$\<close>. A pattern is the list of its items; \<open>match_here\<close> is the backtracking matcher
  of \<open>re\<close> at one position and \<open>re_search\<close> tries the positions from the left. The
  result of a match is the text of group 1. On the characters modelled here (code points
  below 256) \<open>\d\<close> is one of \<open>0\<close> to \<open>9\<close>.
\<close>

datatype atom =
    Chr char    \<comment> \<open>a literal character (also \<open>\.\<close>)\<close>
  | AnyChar     \<comment> \<open>\<open>.\<close>: every character but LF\<close>
  | DigitChar   \<comment> \<open>\<open>\d\<close>\<close>

datatype item =
    One atom
  | Many0 atom    \<comment> \<open>\<open>a*\<close>, greedy\<close>
  | Many1 atom    \<comment> \<open>\<open>a+\<close>, greedy\<close>
  | GroupOpen     \<comment> \<open>\<open>(\<close>\<close>
  | GroupClose    \<comment> \<open>\<open>)\<close>\<close>
  | EndAnchor     \<comment> \<open>\<open>$\<close>: at the end, or before a LF that ends the text\<close>

definition is_digit :: "char \<Rightarrow> bool" where
  "is_digit c = (48 \<le> (of_char c :: nat) \<and> (of_char c :: nat) \<le> 57)"

fun atom_ok :: "atom \<Rightarrow> char \<Rightarrow> bool" where
  "atom_ok (Chr d) c = (c = d)"
| "atom_ok AnyChar c = (c \<noteq> LF)"
| "atom_ok DigitChar c = is_digit c"

function match_here :: "item list \<Rightarrow> string \<Rightarrow> string \<Rightarrow> string option" where
  "match_here [] s g = Some g"
| "match_here (One a # p) s g =
     (case s of
        [] \<Rightarrow> None
      | c # cs \<Rightarrow> if atom_ok a c then match_here p cs g else None)"
| "match_here (Many0 a # p) s g =
     (case s of
        [] \<Rightarrow> match_here p s g
      | c # cs \<Rightarrow>
          if atom_ok a c then
            (case match_here (Many0 a # p) cs g of
               Some r \<Rightarrow> Some r
             | None \<Rightarrow> match_here p s g)
          else match_here p s g)"
| "match_here (Many1 a # p) s g =
     (case s of
        [] \<Rightarrow> None
      | c # cs \<Rightarrow> if atom_ok a c then match_here (Many0 a # p) cs g else None)"
| "match_here (GroupOpen # p) s g = match_here p s s"
| "match_here (GroupClose # p) s g = match_here p s (take (length g - length s) g)"
| "match_here (EndAnchor # p) s g =
     (if s = [] \<or> s = [LF] then match_here p s g else None)"
  by pat_completeness auto
termination
  by (relation "measure (\<lambda>(p, s, g). length p + length s)") auto

fun re_search :: "item list \<Rightarrow> string \<Rightarrow> string option" where
  \<comment> \<open>\<open>re.search(p, s)\<close>: \<open>None\<close>, or the match's group 1\<close>
  "re_search p [] = match_here p [] []"
| "re_search p (c # cs) =
     (case match_here p (c # cs) [] of
        Some g \<Rightarrow> Some g
      | None \<Rightarrow> re_search p cs)"

definition lits :: "string \<Rightarrow> item list" where
  "lits w = map (\<lambda>c. One (Chr c)) w"

definition digit_char :: "nat \<Rightarrow> char" where
  "digit_char d = char_of (48 + d)"

function str_nat :: "nat \<Rightarrow> string" where
  \<comment> \<open>\<open>str(i)\<close> or \<open>f"{i}"\<close> for an index \<open>i \<ge> 0\<close>\<close>
  "str_nat n = (if n < 10 then [digit_char n] else str_nat (n div 10) @ [digit_char (n mod 10)])"
  by pat_completeness auto
termination
  by (relation "measure id") auto

declare str_nat.simps [simp del]

definition py_int :: "string \<Rightarrow> nat" where
  \<comment> \<open>\<open>int(s)\<close> on a text of decimal digits\<close>
  "py_int s = foldl (\<lambda>a c. 10 * a + (of_char c - 48)) 0 s"

definition pattern_pdb :: "nat \<Rightarrow> item list" where
  \<comment> \<open>\<open>rf"folded_.*_{i}\.pdb$"\<close>\<close>
  "pattern_pdb i =
     lits ''folded_'' @ [Many0 AnyChar] @ lits ''_'' @ lits (str_nat i) @ lits ''.pdb''
       @ [EndAnchor]"

definition pattern_csv :: "nat \<Rightarrow> item list" where
  \<comment> \<open>\<open>rf"tmp_.*_{i}\.csv$"\<close>\<close>
  "pattern_csv i =
     lits ''tmp_'' @ [Many0 AnyChar] @ lits ''_'' @ lits (str_nat i) @ lits ''.csv''
       @ [EndAnchor]"

definition key_pattern :: "string \<Rightarrow> item list" where
  \<comment> \<open>\<open>r"_(\d+)_\d+\.pdb$"\<close> and \<open>r"_(\d+)_\d+\.csv$"\<close>; \<open>ext\<close> is \<open>pdb\<close> or \<open>csv\<close>\<close>
  "key_pattern ext =
     lits ''_'' @ [GroupOpen, Many1 DigitChar, GroupClose] @ lits ''_'' @ [Many1 DigitChar]
       @ lits ''.'' @ lits ext @ [EndAnchor]"

definition sort_key_of :: "string \<Rightarrow> string \<Rightarrow> error + nat" where
  \<comment> \<open>\<open>lambda x: int(re.search(..., x).group(1))\<close>: \<open>None.group\<close> raises AttributeError\<close>
  "sort_key_of ext x =
     (case re_search (key_pattern ext) x of
        None \<Rightarrow> Inl AttributeError
      | Some g \<Rightarrow> Inr (py_int g))"

fun keyed :: "('a \<Rightarrow> error + nat) \<Rightarrow> 'a list \<Rightarrow> error + (nat \<times> 'a) list" where
  \<comment> \<open>the keys of all elements, computed from the left; the first failure is raised\<close>
  "keyed key [] = Inr []"
| "keyed key (x # xs) =
     (case key x of
        Inl e \<Rightarrow> Inl e
      | Inr k \<Rightarrow> (case keyed key xs of Inl e \<Rightarrow> Inl e | Inr ks \<Rightarrow> Inr ((k, x) # ks)))"

definition py_sorted :: "('a \<Rightarrow> error + nat) \<Rightarrow> 'a list \<Rightarrow> error + 'a list" where
  \<comment> \<open>\<open>sorted(xs, key=key)\<close>: a stable sort by the keys\<close>
  "py_sorted key xs =
     (case keyed key xs of
        Inl e \<Rightarrow> Inl e
      | Inr ks \<Rightarrow> Inr (map snd (sort_key fst ks)))"

definition selected :: "item list \<Rightarrow> string \<Rightarrow> bool" where
  \<comment> \<open>\<open>re.search(pattern, f)\<close> as a condition\<close>
  "selected pat f = (re_search pat f \<noteq> None)"

definition matching_pdb_files :: "nat \<Rightarrow> string list \<Rightarrow> error + string list" where
  "matching_pdb_files i pdb_files =
     py_sorted (sort_key_of ''pdb'') (filter (selected (pattern_pdb i)) pdb_files)"

definition matching_csv_files :: "nat \<Rightarrow> string list \<Rightarrow> error + string list" where
  "matching_csv_files i csv_files =
     py_sorted (sort_key_of ''csv'') (filter (selected (pattern_csv i)) csv_files)"


section \<open>Collector (fold\_gaudi/array/collector.py)\<close>

text \<open>
  A \<open>DataFrame\<close> is its column labels and its rows, a row giving the value of each label.
  A cell is a value or the missing-value sentinel \<open>NaN\<close>.
\<close>

datatype 'a cell = NaN | Val 'a

record 'a dataframe =
  columns :: "string list"
  rows :: "(string \<Rightarrow> 'a cell) list"

definition empty_dataframe :: "'a dataframe" where
  \<comment> \<open>\<open>pd.DataFrame()\<close>\<close>
  "empty_dataframe = \<lparr>columns = [], rows = []\<rparr>"

definition df_empty :: "'a dataframe \<Rightarrow> bool" where
  \<comment> \<open>\<open>df.empty\<close>: an axis of length 0\<close>
  "df_empty df = (columns df = [] \<or> rows df = [])"

definition column_iloc0 :: "'a dataframe \<Rightarrow> string \<Rightarrow> error + 'a cell" where
  \<comment> \<open>\<open>df[column].iloc[0]\<close>: KeyError for a missing label, IndexError with no row\<close>
  "column_iloc0 df column =
     (if column \<notin> set (columns df) then Inl KeyError
      else (case rows df of [] \<Rightarrow> Inl IndexError | r # _ \<Rightarrow> Inr (r column)))"

definition safe_first :: "'a dataframe \<Rightarrow> string \<Rightarrow> 'a cell \<Rightarrow> error + 'a cell" where
  \<comment> \<open>\<open>_safe_first(df, column, default)\<close>\<close>
  "safe_first df column default_value =
     (if column \<in> set (columns df) \<and> \<not> df_empty df then column_iloc0 df column
      else Inr default_value)"

record 'a result_row =
  Description :: string
  Sequence :: string
  pTM_Score :: "'a cell"
  pLDDT_Score :: "'a cell"
  PDB :: "string option"
  FAA_File :: string

record 'a world =
  files :: filesystem
    \<comment> \<open>the text of every file that \<open>open(path, "r")\<close> can read\<close>
  read_csv :: "string \<Rightarrow> error + 'a dataframe"
    \<comment> \<open>\<open>pd.read_csv\<close>, which fails on a missing or unreadable table\<close>
  load_fasta :: "string \<Rightarrow> error + (string list \<times> string list)"
    \<comment> \<open>\<open>mps.load_fasta_entries\<close>, of the imported package\<close>

definition py_index :: "'a list \<Rightarrow> int \<Rightarrow> error + 'a" where
  \<comment> \<open>\<open>xs[j]\<close>: a negative index counts from the end\<close>
  "py_index xs j =
     (let n = int (length xs); k = (if j < 0 then n + j else j)
      in if 0 \<le> k \<and> k < n then Inr (xs ! nat k) else Inl IndexError)"

definition open_read :: "filesystem \<Rightarrow> string \<Rightarrow> error + string" where
  \<comment> \<open>\<open>with open(path, "r", ...) as f: f.read()\<close>\<close>
  "open_read fs path = (case fs path of None \<Rightarrow> Inl FileNotFoundError | Some t \<Rightarrow> Inr t)"

definition and_then :: "error + 'a \<Rightarrow> ('a \<Rightarrow> error + 'b) \<Rightarrow> error + 'b" where
  \<comment> \<open>sequencing: an exception of the first step ends the computation\<close>
  "and_then r f = (case r of Inl e \<Rightarrow> Inl e | Inr x \<Rightarrow> f x)"

type_synonym entry_item = "int \<times> string \<times> string \<times> string \<times> string list \<times> string list"

definition process_entry :: "'a world \<Rightarrow> entry_item \<Rightarrow> error + 'a result_row" where
  \<comment> \<open>\<open>_process_entry(item)\<close>\<close>
  "process_entry w item =
     (case item of (j, entry, description, faa_file, matching_pdb, matching_csv) \<Rightarrow>
        and_then
          (if j < int (length matching_pdb)
           then and_then (py_index matching_pdb j)
                  (\<lambda>path. and_then (open_read (files w) path) (\<lambda>t. Inr (Some t)))
           else Inr None)
          (\<lambda>pdb_str.
             and_then
               (if j < int (length matching_csv)
                then and_then (py_index matching_csv j) (read_csv w)
                else Inr empty_dataframe)
               (\<lambda>df_analysis.
                  and_then (safe_first df_analysis ''pTM_Score'' NaN)
                    (\<lambda>ptm.
                       and_then (safe_first df_analysis ''pLDDT_Score'' NaN)
                         (\<lambda>plddt.
                            Inr \<lparr>Description = description,
                                 Sequence = entry,
                                 pTM_Score = ptm,
                                 pLDDT_Score = plddt,
                                 PDB = pdb_str,
                                 FAA_File = faa_file\<rparr>)))))"

fun map_results :: "('a \<Rightarrow> error + 'b) \<Rightarrow> 'a list \<Rightarrow> error + 'b list" where
  \<comment> \<open>the results of \<open>f\<close> on each element, in order; the first exception ends the run\<close>
  "map_results f [] = Inr []"
| "map_results f (x # xs) =
     and_then (f x) (\<lambda>y. and_then (map_results f xs) (\<lambda>ys. Inr (y # ys)))"

definition process_faa_item ::
  "'a world \<Rightarrow> string list \<Rightarrow> string list \<Rightarrow> nat \<times> string \<Rightarrow> error + 'a result_row list" where
  \<comment> \<open>\<open>_process_faa_item(item)\<close>; \<open>pdb_files\<close> and \<open>csv_files\<close> are the module's lists, and
      \<open>mps.mp_calc\<close> gives the results of \<open>_process_entry\<close> on the items\<close>
  "process_faa_item w pdb_files csv_files item =
     (case item of (i, faa_file) \<Rightarrow>
        and_then (load_fasta w faa_file)
          (\<lambda>(entries, descriptions).
             if entries = [] then Inr []
             else
               and_then (matching_pdb_files i pdb_files)
                 (\<lambda>matching_pdb.
                    and_then (matching_csv_files i csv_files)
                      (\<lambda>matching_csv.
                         map_results (process_entry w)
                           (map (\<lambda>(j, entry, description).
                                   (int j, entry, description, faa_file,
                                    matching_pdb, matching_csv))
                              (zip [0 ..< length (zip entries descriptions)]
                                 (zip entries descriptions)))))))"

definition collector_main ::
  "'a world \<Rightarrow> string list \<Rightarrow> string list \<Rightarrow> string list \<Rightarrow> error + 'a result_row list" where
  \<comment> \<open>\<open>__main__\<close> from the size check on; the three lists are the directory scans\<close>
  "collector_main w pdb_files csv_files faa_files =
     (if length pdb_files \<noteq> length csv_files then Inl ValueError
      else and_then
             (map_results (process_faa_item w pdb_files csv_files)
                (zip [0 ..< length faa_files] faa_files))
             (\<lambda>chunks. Inr (concat chunks)))"


definition claimed_name :: "nat \<Rightarrow> nat \<Rightarrow> string" where
  \<comment> \<open>a structure file named with the suffix \<open>_<fileIndex>_<entryIndex>.pdb\<close>, the file
      index first\<close>
  "claimed_name file_index entry_index =
     ''folded_'' @ str_nat file_index @ ''_'' @ str_nat entry_index @ ''.pdb''"




section \<open>Properties of the FASTA Reader\<close>

lemma header_not_skipped: "header_line l \<Longrightarrow> \<not> blank_or_comment l"
  by (cases l) (auto simp: header_line_def blank_or_comment_def startswith_def)

lemma step_skip: "blank_or_comment (strip r) \<Longrightarrow> fasta_step st r = st"
  by (simp add: fasta_step_def blank_or_comment_def)

lemma step_header:
  "header_line (strip r) \<Longrightarrow>
   fasta_step st r =
     (flush_record st)\<lparr>current_desc := Some (strip (drop 1 (strip r))), current_chunks := []\<rparr>"
  using header_not_skipped[of "strip r"]
  by (simp add: fasta_step_def blank_or_comment_def header_line_def)

lemma step_chunk:
  "\<not> header_line (strip r) \<Longrightarrow> \<not> blank_or_comment (strip r) \<Longrightarrow>
   fasta_step st r = st\<lparr>current_chunks := current_chunks st @ [strip r]\<rparr>"
  by (simp add: fasta_step_def blank_or_comment_def header_line_def)

lemma seqs_run:
  "seqs_list (flush_record (foldl fasta_step st ls)) =
     seqs_list st @ pending st (fst (group_records (map strip ls)))
       @ map (record_sequence (\<lambda>c. c = CHR '' '')) (snd (group_records (map strip ls)))"
proof (induction ls arbitrary: st)
  case Nil
  show ?case by (simp add: flush_record_def pending_def split: option.splits)
next
  case (Cons r ls)
  obtain pre recs where g: "group_records (map strip ls) = (pre, recs)" by force
  consider (skip) "blank_or_comment (strip r)" | (hdr) "header_line (strip r)"
    | (chunk) "\<not> header_line (strip r)" "\<not> blank_or_comment (strip r)" by blast
  then show ?case
  proof cases
    case skip
    then have nh: "\<not> header_line (strip r)" using header_not_skipped by blast
    show ?thesis using skip nh g Cons.IH[of st]
      by (simp add: step_skip pending_def split: option.splits)
  next
    case hdr
    show ?thesis using hdr g Cons.IH[of "fasta_step st r"]
      by (simp add: step_header pending_def flush_record_def record_sequence_def
            replace_space_def split: option.splits)
  next
    case chunk
    show ?thesis using chunk g Cons.IH[of "fasta_step st r"]
      by (simp add: step_chunk pending_def split: option.splits)
  qed
qed

lemma descs_run:
  "descs_list (flush_record (foldl fasta_step st ls)) =
     descs_list st @ pending_desc st
       @ map (\<lambda>r. strip (drop 1 (fst r))) (snd (group_records (map strip ls)))"
proof (induction ls arbitrary: st)
  case Nil
  show ?case by (simp add: flush_record_def pending_desc_def split: option.splits)
next
  case (Cons r ls)
  obtain pre recs where g: "group_records (map strip ls) = (pre, recs)" by force
  consider (skip) "blank_or_comment (strip r)" | (hdr) "header_line (strip r)"
    | (chunk) "\<not> header_line (strip r)" "\<not> blank_or_comment (strip r)" by blast
  then show ?case
  proof cases
    case skip
    then have nh: "\<not> header_line (strip r)" using header_not_skipped by blast
    show ?thesis using skip nh g Cons.IH[of st]
      by (simp add: step_skip)
  next
    case hdr
    show ?thesis using hdr g Cons.IH[of "fasta_step st r"]
      by (simp add: step_header pending_desc_def flush_record_def split: option.splits)
  next
    case chunk
    show ?thesis using chunk g Cons.IH[of "fasta_step st r"]
      by (simp add: step_chunk pending_desc_def split: option.splits)
  qed
qed

lemma group_records_headers:
  "map fst (snd (group_records ls)) = filter header_line ls"
  by (induction ls) (auto split: prod.splits)

lemma parse_fasta_seqs:
  "fst (parse_fasta text) = map (record_sequence (\<lambda>c. c = CHR '' '')) (file_records text)"
  by (simp add: parse_fasta_def Let_def seqs_run file_records_def fasta_init_def pending_def)

lemma parse_fasta_descs:
  "snd (parse_fasta text) = map (\<lambda>r. strip (drop 1 (fst r))) (file_records text)"
  by (simp add: parse_fasta_def Let_def descs_run file_records_def fasta_init_def
        pending_desc_def)

lemma file_records_headers:
  "map fst (file_records text) = filter header_line (map strip (file_lines text))"
  by (simp add: file_records_def group_records_headers)


lemma header_filter_lines:
  "filter header_line (map strip ls) = map strip (filter (\<lambda>l. startswith (strip l) ''>'') ls)"
  by (induction ls) (simp_all add: header_line_def)

lemma parse_fasta_descs_lines:
  "snd (parse_fasta text) =
     map (\<lambda>l. strip (drop 1 (strip l)))
       (filter (\<lambda>l. startswith (strip l) ''>'') (file_lines text))"
proof -
  have "snd (parse_fasta text) = map (\<lambda>h. strip (drop 1 h)) (map fst (file_records text))"
    by (simp add: parse_fasta_descs)
  also have "\<dots> = map (\<lambda>h. strip (drop 1 h))
      (map strip (filter (\<lambda>l. startswith (strip l) ''>'') (file_lines text)))"
    by (simp only: file_records_headers header_filter_lines)
  finally show ?thesis by simp
qed



text \<open>
  Claim C2, as amended. The sequence of every record is the concatenation of the record's
  stripped, non-blank, non-comment, non-header lines with every space character (U+0020)
  removed; other whitespace inside a line stays.
\<close>

theorem fasta_sequence_of_record:
  "length (fst (parse_fasta text)) = length (file_records text)
   \<and> (\<forall>k. k < length (file_records text) \<longrightarrow>
         fst (parse_fasta text) ! k =
           record_sequence (\<lambda>c. c = CHR '' '') (file_records text ! k))"
  by (simp add: parse_fasta_seqs)

theorem fasta_sequence_of_record_witness:
  "fst (parse_fasta (''>a'' @ [LF] @ ''M K'' @ [LF] @ ''V'')) ! 0 =
     record_sequence (\<lambda>c. c = CHR '' '')
       (file_records (''>a'' @ [LF] @ ''M K'' @ [LF] @ ''V'') ! 0)
   \<and> 0 < length (file_records (''>a'' @ [LF] @ ''M K'' @ [LF] @ ''V''))"
proof -
  have len: "0 < length (file_records (''>a'' @ [LF] @ ''M K'' @ [LF] @ ''V''))"
    by (simp add: file_records_def file_lines_def strip_def py_isspace_def startswith_def
          header_line_def LF_def CR_def)
  show ?thesis
    using fasta_sequence_of_record [of "''>a'' @ [LF] @ ''M K'' @ [LF] @ ''V''"] len
    by blast
qed

text \<open>
  Claim C2, as stated, fails: in the text \<open>">a\nM\tK"\<close> the record's line holds a TAB,
  which is whitespace, and the returned sequence still holds it.
\<close>

theorem fasta_internal_whitespace_counterexample:
  "fst (parse_fasta (''>a'' @ [LF] @ ''M'' @ [CHR 0x09] @ ''K'')) \<noteq>
     map (record_sequence py_isspace)
       (file_records (''>a'' @ [LF] @ ''M'' @ [CHR 0x09] @ ''K''))"
  by (simp add: parse_fasta_def file_lines_def fasta_step_def fasta_init_def
        flush_record_def strip_def py_isspace_def startswith_def LF_def CR_def
        replace_space_def file_records_def record_sequence_def header_line_def
        blank_or_comment_def)

text \<open>
  Claim C3. \<open>load_fasta_entries\<close> fails exactly when the path is not an existing file, and
  then with the Not-Found error; otherwise it returns two lists of equal length in the
  order of the file; on \<open>">a\nMKV\n>b\nLLT\n"\<close> the descriptions are \<open>a, b\<close> and the
  sequences \<open>MKV, LLT\<close>.
\<close>

theorem load_fasta_entries_contract:
  "(load_fasta_entries fs p = Inl FileNotFoundError \<longleftrightarrow> fs p = None)
   \<and> (\<forall>e. load_fasta_entries fs p = Inl e \<longrightarrow> e = FileNotFoundError)
   \<and> (\<forall>text. fs p = Some text \<longrightarrow>
         (\<exists>seqs descs. load_fasta_entries fs p = Inr (seqs, descs)
            \<and> length seqs = length descs
            \<and> descs = map (\<lambda>l. strip (drop 1 (strip l)))
                 (filter (\<lambda>l. startswith (strip l) ''>'') (file_lines text))
            \<and> seqs = map (record_sequence (\<lambda>c. c = CHR '' '')) (file_records text)))
   \<and> (fs p = Some (''>a'' @ [LF] @ ''MKV'' @ [LF] @ ''>b'' @ [LF] @ ''LLT'' @ [LF]) \<longrightarrow>
         load_fasta_entries fs p = Inr ([''MKV'', ''LLT''], [''a'', ''b'']))"
proof -
  have a: "load_fasta_entries fs p = Inl FileNotFoundError \<longleftrightarrow> fs p = None"
    by (simp add: load_fasta_entries_def split: option.splits)
  have b: "\<forall>e. load_fasta_entries fs p = Inl e \<longrightarrow> e = FileNotFoundError"
    by (simp add: load_fasta_entries_def split: option.splits)
  have c: "\<forall>text. fs p = Some text \<longrightarrow>
         (\<exists>seqs descs. load_fasta_entries fs p = Inr (seqs, descs)
            \<and> length seqs = length descs
            \<and> descs = map (\<lambda>l. strip (drop 1 (strip l)))
                 (filter (\<lambda>l. startswith (strip l) ''>'') (file_lines text))
            \<and> seqs = map (record_sequence (\<lambda>c. c = CHR '' '')) (file_records text))"
  proof (intro allI impI)
    fix t :: string
    assume t: "fs p = Some t"
    have "load_fasta_entries fs p = Inr (fst (parse_fasta t), snd (parse_fasta t))"
      using t by (simp add: load_fasta_entries_def)
    moreover have "length (fst (parse_fasta t)) = length (snd (parse_fasta t))"
      by (simp add: parse_fasta_descs parse_fasta_seqs)
    ultimately show "\<exists>seqs descs. load_fasta_entries fs p = Inr (seqs, descs)
            \<and> length seqs = length descs
            \<and> descs = map (\<lambda>l. strip (drop 1 (strip l)))
                 (filter (\<lambda>l. startswith (strip l) ''>'') (file_lines t))
            \<and> seqs = map (record_sequence (\<lambda>c. c = CHR '' '')) (file_records t)"
      using parse_fasta_descs_lines parse_fasta_seqs by blast
  qed
  have d: "parse_fasta (''>a'' @ [LF] @ ''MKV'' @ [LF] @ ''>b'' @ [LF] @ ''LLT'' @ [LF])
      = ([''MKV'', ''LLT''], [''a'', ''b''])"
    by (simp add: parse_fasta_def file_lines_def fasta_step_def fasta_init_def
        flush_record_def strip_def py_isspace_def startswith_def LF_def CR_def
        replace_space_def)
  have e: "fs p = Some (''>a'' @ [LF] @ ''MKV'' @ [LF] @ ''>b'' @ [LF] @ ''LLT'' @ [LF]) \<longrightarrow>
         load_fasta_entries fs p = Inr ([''MKV'', ''LLT''], [''a'', ''b''])"
    using d by (simp add: load_fasta_entries_def)
  from a b c e show ?thesis by blast
qed

theorem load_fasta_entries_contract_witness:
  "load_fasta_entries
     (\<lambda>q. if q = ''x.faa''
           then Some (''>a'' @ [LF] @ ''MKV'' @ [LF] @ ''>b'' @ [LF] @ ''LLT'' @ [LF])
           else None) ''x.faa''
     = Inr ([''MKV'', ''LLT''], [''a'', ''b''])"
proof -
  let ?fs = "\<lambda>q. if q = ''x.faa''
           then Some (''>a'' @ [LF] @ ''MKV'' @ [LF] @ ''>b'' @ [LF] @ ''LLT'' @ [LF])
           else None"
  have h: "?fs ''x.faa'' = Some (''>a'' @ [LF] @ ''MKV'' @ [LF] @ ''>b'' @ [LF] @ ''LLT'' @ [LF])"
    by simp
  from load_fasta_entries_contract [of ?fs "''x.faa''"]
  have "?fs ''x.faa'' = Some (''>a'' @ [LF] @ ''MKV'' @ [LF] @ ''>b'' @ [LF] @ ''LLT'' @ [LF])
      \<longrightarrow> load_fasta_entries ?fs ''x.faa'' = Inr ([''MKV'', ''LLT''], [''a'', ''b''])"
    by (elim conjE)
  with h show ?thesis by (rule mp [rotated])
qed


section \<open>Properties of the Collector and of the Shared Append Log\<close>

lemma and_then_Inr [simp]: "and_then (Inr x) f = f x"
  by (simp add: and_then_def)

lemma and_then_Inl [simp]: "and_then (Inl e) f = Inl e"
  by (simp add: and_then_def)


lemma safe_first_never_raises: "safe_first df column d \<noteq> Inl e"
  by (cases "rows df") (auto simp: safe_first_def df_empty_def column_iloc0_def)

text \<open>
  Claim C6. \<open>_safe_first\<close> returns the value of the named field in the first row when the
  table has the field and a row, and the sentinel \<open>NaN\<close> in every other case; it never
  raises.
\<close>

theorem safe_first_first_row_or_nan:
  "(column \<in> set (columns df) \<and> rows df \<noteq> [] \<longrightarrow>
      safe_first df column NaN = Inr (hd (rows df) column))
   \<and> (\<not> (column \<in> set (columns df) \<and> rows df \<noteq> []) \<longrightarrow>
      safe_first df column NaN = Inr NaN)
   \<and> (\<forall>e. safe_first df column NaN \<noteq> Inl e)"
  by (cases "rows df") (auto simp: safe_first_def df_empty_def column_iloc0_def)

theorem safe_first_first_row_or_nan_witness:
  "safe_first \<lparr>columns = [''pTM_Score''], rows = [\<lambda>c. Val (7::nat)]\<rparr> ''pTM_Score'' NaN
     = Inr (Val 7)
   \<and> safe_first \<lparr>columns = [''pTM_Score''], rows = [\<lambda>c. Val (7::nat)]\<rparr> ''pLDDT_Score'' NaN
     = Inr NaN
   \<and> safe_first \<lparr>columns = [''pTM_Score''], rows = ([] :: (string \<Rightarrow> nat cell) list)\<rparr>
       ''pTM_Score'' NaN = Inr NaN"
  using safe_first_first_row_or_nan
      [of "''pTM_Score''" "\<lparr>columns = [''pTM_Score''], rows = [\<lambda>c. Val (7::nat)]\<rparr>"]
    safe_first_first_row_or_nan
      [of "''pLDDT_Score''" "\<lparr>columns = [''pTM_Score''], rows = [\<lambda>c. Val (7::nat)]\<rparr>"]
    safe_first_first_row_or_nan
      [of "''pTM_Score''"
          "\<lparr>columns = [''pTM_Score''], rows = ([] :: (string \<Rightarrow> nat cell) list)\<rparr>"]
  by simp





text \<open>
  Claim C5. When the number of structure files differs from the number of score files,
  the collector raises its fatal error whatever the sequence files, the file contents and
  the score tables are: no sequence file is read, no entry is processed and no row is
  returned.
\<close>

theorem collector_pool_mismatch:
  "length pdb_files \<noteq> length csv_files \<Longrightarrow>
   collector_main w pdb_files csv_files faa_files = Inl ValueError
   \<and> (\<forall>rows. collector_main w pdb_files csv_files faa_files \<noteq> Inr rows)"
  by (simp add: collector_main_def)

theorem collector_pool_mismatch_witness:
  "collector_main
     \<lparr>files = (\<lambda>p. Some ''ATOM''),
      read_csv = (\<lambda>p. Inr \<lparr>columns = [''pTM_Score''], rows = [\<lambda>c. Val (1::nat)]\<rparr>),
      load_fasta = (\<lambda>p. Inr ([''MKV''], [''a'']))\<rparr>
     [''folded_0_0.pdb'', ''folded_1_0.pdb'', ''folded_2_0.pdb'']
     [''tmp_0_0.csv'', ''tmp_1_0.csv'']
     [''x.faa'']
   = Inl ValueError"
  using collector_pool_mismatch
    [of "[''folded_0_0.pdb'', ''folded_1_0.pdb'', ''folded_2_0.pdb'']"
        "[''tmp_0_0.csv'', ''tmp_1_0.csv'']"
        "\<lparr>files = (\<lambda>p. Some ''ATOM''),
          read_csv = (\<lambda>p. Inr \<lparr>columns = [''pTM_Score''], rows = [\<lambda>c. Val (1::nat)]\<rparr>),
          load_fasta = (\<lambda>p. Inr ([''MKV''], [''a'']))\<rparr>"
        "[''x.faa'']"]
  by simp

text \<open>
  Claim C8. The record a folding task appends to the shared log is one string: its seven
  fields joined by the separator \<open>;;;\<close> (each field after the first written after one
  space), then the marker \<open> ~~~\<close> and a newline; the log afterwards is the log before
  with that record at its end.
\<close>

theorem log_record_format:
  "out_str file description entry ptm plddt plddt_mean pdb_str =
     py_join '';;;''
       [file, '' '' @ description, '' '' @ entry, '' '' @ ptm, '' '' @ plddt,
        '' '' @ plddt_mean, '' '' @ pdb_str]
       @ '' ~~~'' @ [LF]
   \<and> log_record fs file description entry ptm plddt plddt_mean pdb_str (file @ ''.fdat'') =
       Some ((case fs (file @ ''.fdat'') of None \<Rightarrow> [] | Some old \<Rightarrow> old)
             @ out_str file description entry ptm plddt plddt_mean pdb_str)"
  by (simp add: out_str_def log_record_def write_to_shared_file_def split: option.splits)


section \<open>Properties of the Artifact Matcher\<close>

subsection \<open>The matcher on literals, repetitions and the end anchor\<close>

lemma match_lits:
  "match_here (lits w @ p) s g =
     (if take (length w) s = w then match_here p (drop (length w) s) g else None)"
proof (induction w arbitrary: s)
  case Nil
  show ?case by (simp add: lits_def)
next
  case (Cons c w)
  show ?case
  proof (cases s)
    case Nil
    then show ?thesis by (simp add: lits_def)
  next
    case (Cons d ds)
    with Cons.IH[of ds] show ?thesis by (auto simp: lits_def)
  qed
qed

lemma match_many0_iff:
  "match_here (Many0 a # p) s g \<noteq> None \<longleftrightarrow>
     (\<exists>m r. s = m @ r \<and> (\<forall>c\<in>set m. atom_ok a c) \<and> match_here p r g \<noteq> None)"
proof (induction s)
  case Nil
  show ?case by simp
next
  case (Cons c cs)
  show ?case
  proof (cases "atom_ok a c")
    case False
    have "(\<exists>m r. c # cs = m @ r \<and> (\<forall>c\<in>set m. atom_ok a c) \<and> match_here p r g \<noteq> None)
        \<longleftrightarrow> match_here p (c # cs) g \<noteq> None"
    proof
      assume "\<exists>m r. c # cs = m @ r \<and> (\<forall>c\<in>set m. atom_ok a c) \<and> match_here p r g \<noteq> None"
      then obtain m r where mr: "c # cs = m @ r" "\<forall>c\<in>set m. atom_ok a c"
        "match_here p r g \<noteq> None" by blast
      have "m = []" using mr(1,2) False by (cases m) auto
      with mr show "match_here p (c # cs) g \<noteq> None" by simp
    next
      assume "match_here p (c # cs) g \<noteq> None"
      then show "\<exists>m r. c # cs = m @ r \<and> (\<forall>c\<in>set m. atom_ok a c) \<and> match_here p r g \<noteq> None"
        by (intro exI[of _ "[]"] exI[of _ "c # cs"]) simp
    qed
    with False show ?thesis by simp
  next
    case True
    have "(\<exists>m r. c # cs = m @ r \<and> (\<forall>c\<in>set m. atom_ok a c) \<and> match_here p r g \<noteq> None)
        \<longleftrightarrow> match_here p (c # cs) g \<noteq> None
          \<or> (\<exists>m r. cs = m @ r \<and> (\<forall>c\<in>set m. atom_ok a c) \<and> match_here p r g \<noteq> None)"
      (is "?L \<longleftrightarrow> ?A \<or> ?B")
    proof
      assume ?L
      then obtain m r where mr: "c # cs = m @ r" "\<forall>c\<in>set m. atom_ok a c"
        "match_here p r g \<noteq> None" by blast
      show "?A \<or> ?B"
      proof (cases m)
        case Nil
        with mr show ?thesis by simp
      next
        case (Cons d ds)
        with mr have "cs = ds @ r" "\<forall>c\<in>set ds. atom_ok a c" by auto
        with mr(3) show ?thesis by blast
      qed
    next
      assume "?A \<or> ?B"
      then show ?L
      proof
        assume ?A
        then show ?L by (intro exI[of _ "[]"] exI[of _ "c # cs"]) simp
      next
        assume ?B
        then obtain m r where "cs = m @ r" "\<forall>c\<in>set m. atom_ok a c"
          "match_here p r g \<noteq> None" by blast
        then show ?L using True by (intro exI[of _ "c # m"] exI[of _ r]) simp
      qed
    qed
    with True Cons.IH show ?thesis by (auto split: option.splits)
  qed
qed

lemma re_search_iff:
  "re_search p s \<noteq> None \<longleftrightarrow> (\<exists>a b. s = a @ b \<and> match_here p b [] \<noteq> None)"
proof (induction s)
  case Nil
  show ?case by simp
next
  case (Cons c cs)
  have "(\<exists>a b. c # cs = a @ b \<and> match_here p b [] \<noteq> None)
      \<longleftrightarrow> match_here p (c # cs) [] \<noteq> None \<or> (\<exists>a b. cs = a @ b \<and> match_here p b [] \<noteq> None)"
    by (auto simp: Cons_eq_append_conv)
  with Cons.IH show ?case by (auto split: option.splits)
qed

lemma match_end:
  "match_here [EndAnchor] s g \<noteq> None \<longleftrightarrow> s = [] \<or> s = [LF]"
  by simp


lemma split_at_length:
  "take (length w) r = w \<and> drop (length w) r = t \<longleftrightarrow> r = w @ t"
  by (metis append_eq_conv_conj)

lemma match_lits_end_value:
  "match_here (lits w @ [EndAnchor]) r g = (if r = w \<or> r = w @ [LF] then Some g else None)"
  using split_at_length[of w r "[]"] split_at_length[of w r "[LF]"]
  by (auto simp: match_lits)

lemma match_lits_end:
  "match_here (lits w @ [EndAnchor]) r g \<noteq> None \<longleftrightarrow> r = w \<or> r = w @ [LF]"
  by (simp add: match_lits_end_value)

lemma lits_append: "lits (u @ v) = lits u @ lits v"
  by (simp add: lits_def)

lemma match_prefix_any_suffix:
  "match_here (lits u @ (Many0 AnyChar # (lits w @ [EndAnchor]))) b g \<noteq> None \<longleftrightarrow>
     (\<exists>m t. b = u @ m @ w @ t \<and> LF \<notin> set m \<and> (t = [] \<or> t = [LF]))"
proof -
  have "match_here (lits u @ (Many0 AnyChar # (lits w @ [EndAnchor]))) b g \<noteq> None \<longleftrightarrow>
      take (length u) b = u
      \<and> match_here (Many0 AnyChar # (lits w @ [EndAnchor])) (drop (length u) b) g \<noteq> None"
    by (simp only: match_lits split: if_splits) simp
  also have "\<dots> \<longleftrightarrow> take (length u) b = u
      \<and> (\<exists>m r. drop (length u) b = m @ r \<and> (\<forall>c\<in>set m. atom_ok AnyChar c)
            \<and> (r = w \<or> r = w @ [LF]))"
    by (simp only: match_many0_iff match_lits_end)
  also have "\<dots> \<longleftrightarrow> (\<exists>m t. b = u @ m @ w @ t \<and> LF \<notin> set m \<and> (t = [] \<or> t = [LF]))"
  proof
    assume "take (length u) b = u
      \<and> (\<exists>m r. drop (length u) b = m @ r \<and> (\<forall>c\<in>set m. atom_ok AnyChar c)
            \<and> (r = w \<or> r = w @ [LF]))"
    then obtain m r where h: "take (length u) b = u" "drop (length u) b = m @ r"
      "\<forall>c\<in>set m. atom_ok AnyChar c" "r = w \<or> r = w @ [LF]" by blast
    have b: "b = u @ m @ r"
      using h(1,2) split_at_length[of u b "m @ r"] by simp
    have nl: "LF \<notin> set m" using h(3) by auto
    from h(4) show "\<exists>m t. b = u @ m @ w @ t \<and> LF \<notin> set m \<and> (t = [] \<or> t = [LF])"
    proof
      assume "r = w"
      with b nl show ?thesis by (intro exI[of _ m] exI[of _ "[]"]) simp
    next
      assume "r = w @ [LF]"
      with b nl show ?thesis by (intro exI[of _ m] exI[of _ "[LF]"]) simp
    qed
  next
    assume "\<exists>m t. b = u @ m @ w @ t \<and> LF \<notin> set m \<and> (t = [] \<or> t = [LF])"
    then obtain m t where h: "b = u @ m @ w @ t" "LF \<notin> set m" "t = [] \<or> t = [LF]"
      by blast
    have "take (length u) b = u" "drop (length u) b = m @ (w @ t)"
      using h(1) by simp_all
    moreover have "\<forall>c\<in>set m. atom_ok AnyChar c" using h(2) by auto
    moreover have "w @ t = w \<or> w @ t = w @ [LF]" using h(3) by auto
    ultimately show "take (length u) b = u
      \<and> (\<exists>m r. drop (length u) b = m @ r \<and> (\<forall>c\<in>set m. atom_ok AnyChar c)
            \<and> (r = w \<or> r = w @ [LF]))"
      by blast
  qed
  finally show ?thesis .
qed

lemma selected_pdb_iff:
  "selected (pattern_pdb i) f \<longleftrightarrow>
     (\<exists>a m t. f = a @ ''folded_'' @ m @ ''_'' @ str_nat i @ ''.pdb'' @ t
        \<and> LF \<notin> set m \<and> (t = [] \<or> t = [LF]))"
proof -
  let ?w = "''_'' @ str_nat i @ ''.pdb''"
  have pat: "pattern_pdb i = lits ''folded_'' @ (Many0 AnyChar # (lits ?w @ [EndAnchor]))"
    by (simp add: pattern_pdb_def lits_def)
  have "selected (pattern_pdb i) f \<longleftrightarrow>
      (\<exists>a b. f = a @ b \<and> match_here (pattern_pdb i) b [] \<noteq> None)"
    unfolding selected_def by (rule re_search_iff)
  also have "\<dots> \<longleftrightarrow> (\<exists>a b. f = a @ b
      \<and> (\<exists>m t. b = ''folded_'' @ m @ ?w @ t \<and> LF \<notin> set m \<and> (t = [] \<or> t = [LF])))"
    by (simp only: pat match_prefix_any_suffix)
  also have "\<dots> \<longleftrightarrow> (\<exists>a m t. f = a @ ''folded_'' @ m @ ?w @ t
        \<and> LF \<notin> set m \<and> (t = [] \<or> t = [LF]))"
    by blast
  finally show ?thesis by simp
qed


subsection \<open>The key pattern\<close>

lemma many0_literal:
  "\<not> atom_ok a c \<Longrightarrow>
   match_here (Many0 a # One (Chr c) # p) s g =
     match_here (One (Chr c) # p) (dropWhile (atom_ok a) s) g"
proof (induction s)
  case Nil
  show ?case by simp
next
  case (Cons x xs)
  show ?case
  proof (cases "atom_ok a x")
    case False
    then show ?thesis by simp
  next
    case True
    with Cons.prems have "x \<noteq> c" by auto
    then have "match_here (One (Chr c) # p) (x # xs) g = None" by simp
    with True Cons.IH[OF Cons.prems] show ?thesis
      by (simp split: option.splits del: match_here.simps(2))
  qed
qed

lemma many0_close_literal:
  "\<not> atom_ok a c \<Longrightarrow>
   match_here (Many0 a # GroupClose # One (Chr c) # p) s g =
     match_here (GroupClose # One (Chr c) # p) (dropWhile (atom_ok a) s) g"
proof (induction s)
  case Nil
  show ?case by simp
next
  case (Cons x xs)
  show ?case
  proof (cases "atom_ok a x")
    case False
    then show ?thesis by simp
  next
    case True
    with Cons.prems have "x \<noteq> c" by auto
    then have "match_here (GroupClose # One (Chr c) # p) (x # xs) g = None" by simp
    with True Cons.IH[OF Cons.prems] show ?thesis
      by (simp split: option.splits del: match_here.simps(2,6))
  qed
qed

lemma many1_literal:
  "\<not> atom_ok a c \<Longrightarrow>
   match_here (Many1 a # One (Chr c) # p) s g =
     (if takeWhile (atom_ok a) s = [] then None
      else match_here (One (Chr c) # p) (dropWhile (atom_ok a) s) g)"
  by (cases s) (simp_all add: many0_literal del: match_here.simps(2,3))

lemma take_run:
  "take (Suc (length xs) - length (dropWhile P xs)) (x # xs) = x # takeWhile P xs"
proof -
  have "length xs = length (takeWhile P xs) + length (dropWhile P xs)"
    by (metis length_append takeWhile_dropWhile_id)
  then have "Suc (length xs) - length (dropWhile P xs) = Suc (length (takeWhile P xs))"
    by simp
  then show ?thesis
    by (simp add: takeWhile_eq_take[symmetric])
qed

lemma group_many1_literal:
  "\<not> atom_ok a c \<Longrightarrow>
   match_here (GroupOpen # Many1 a # GroupClose # One (Chr c) # p) s g =
     (if takeWhile (atom_ok a) s = [] then None
      else match_here (One (Chr c) # p) (dropWhile (atom_ok a) s) (takeWhile (atom_ok a) s))"
proof (cases s)
  case Nil
  then show ?thesis by simp
next
  case (Cons x xs)
  assume n: "\<not> atom_ok a c"
  show ?thesis
  proof (cases "atom_ok a x")
    case False
    with Cons show ?thesis by simp
  next
    case True
    have "match_here (GroupOpen # Many1 a # GroupClose # One (Chr c) # p) s g =
        match_here (Many0 a # GroupClose # One (Chr c) # p) xs (x # xs)"
      using Cons True by simp
    also have "\<dots> = match_here (GroupClose # One (Chr c) # p) (dropWhile (atom_ok a) xs) (x # xs)"
      using n by (rule many0_close_literal)
    also have "\<dots> = match_here (One (Chr c) # p) (dropWhile (atom_ok a) xs)
        (x # takeWhile (atom_ok a) xs)"
      by (simp add: take_run del: match_here.simps(2))
    finally show ?thesis using Cons True by simp
  qed
qed

lemma is_digit_atom: "atom_ok DigitChar = is_digit"
  by (rule ext) simp

lemma not_digit_underscore: "\<not> atom_ok DigitChar (CHR ''_'')"
  by (simp add: is_digit_def)

lemma not_digit_dot: "\<not> atom_ok DigitChar (CHR ''.'')"
  by (simp add: is_digit_def)

lemma key_pattern_items:
  "key_pattern ext =
     One (Chr (CHR ''_'')) # GroupOpen # Many1 DigitChar # GroupClose # One (Chr (CHR ''_''))
       # Many1 DigitChar # One (Chr (CHR ''.'')) # (lits ext @ [EndAnchor])"
  by (simp add: key_pattern_def lits_def)

lemma run_then:
  "list_all P d \<Longrightarrow> \<not> P c \<Longrightarrow>
   takeWhile P (d @ c # r) = d \<and> dropWhile P (d @ c # r) = c # r"
  by (induction d) auto

lemma key_match_value:
  "match_here (key_pattern ext) b g0 =
     (case b of
        [] \<Rightarrow> None
      | c # r \<Rightarrow>
          if c \<noteq> CHR ''_'' \<or> takeWhile is_digit r = [] then None
          else (case dropWhile is_digit r of
                  [] \<Rightarrow> None
                | c1 # r1 \<Rightarrow>
                    if c1 \<noteq> CHR ''_'' \<or> takeWhile is_digit r1 = [] then None
                    else (case dropWhile is_digit r1 of
                            [] \<Rightarrow> None
                          | c2 # r2 \<Rightarrow>
                              if c2 = CHR ''.'' \<and> (r2 = ext \<or> r2 = ext @ [LF])
                              then Some (takeWhile is_digit r) else None)))"
proof (cases b)
  case Nil
  then show ?thesis by (simp add: key_pattern_items)
next
  case (Cons c r)
  let ?q = "One (Chr (CHR ''.'')) # (lits ext @ [EndAnchor])"
  have tail: "match_here (One (Chr (CHR ''_'')) # Many1 DigitChar # ?q) s g =
      (case s of
         [] \<Rightarrow> None
       | c1 # r1 \<Rightarrow>
           if c1 \<noteq> CHR ''_'' \<or> takeWhile is_digit r1 = [] then None
           else (case dropWhile is_digit r1 of
                   [] \<Rightarrow> None
                 | c2 # r2 \<Rightarrow>
                     if c2 = CHR ''.'' \<and> (r2 = ext \<or> r2 = ext @ [LF])
                     then Some g else None))" for s g
  proof (cases s)
    case Nil
    then show ?thesis by simp
  next
    case (Cons c1 r1)
    have "match_here ?q u g = (case u of [] \<Rightarrow> None
        | c2 # r2 \<Rightarrow> if c2 = CHR ''.'' \<and> (r2 = ext \<or> r2 = ext @ [LF]) then Some g else None)"
      for u
      by (cases u) (simp_all add: match_lits_end_value)
    then show ?thesis
      using Cons many1_literal[OF not_digit_dot, of "lits ext @ [EndAnchor]" r1 g]
      by (simp add: is_digit_atom del: match_here.simps(4))
  qed
  show ?thesis
  proof (cases "c = CHR ''_''")
    case False
    with Cons show ?thesis by (simp add: key_pattern_items)
  next
    case True
    have "match_here (key_pattern ext) b g0 =
        match_here (GroupOpen # Many1 DigitChar # GroupClose # One (Chr (CHR ''_''))
          # Many1 DigitChar # ?q) r g0"
      using Cons True by (simp add: key_pattern_items del: match_here.simps(4,5))
    also have "\<dots> = (if takeWhile is_digit r = [] then None
        else match_here (One (Chr (CHR ''_'')) # Many1 DigitChar # ?q)
               (dropWhile is_digit r) (takeWhile is_digit r))"
      using group_many1_literal[OF not_digit_underscore, of "Many1 DigitChar # ?q" r g0]
      by (simp add: is_digit_atom)
    finally show ?thesis
      using Cons True by (simp add: tail del: match_here.simps)
  qed
qed

lemma key_match_iff:
  "match_here (key_pattern ext) b g0 = Some g \<longleftrightarrow>
     (\<exists>d2 t. b = ''_'' @ g @ ''_'' @ d2 @ ''.'' @ ext @ t
        \<and> g \<noteq> [] \<and> list_all is_digit g \<and> d2 \<noteq> [] \<and> list_all is_digit d2
        \<and> (t = [] \<or> t = [LF]))"
proof
  assume m: "match_here (key_pattern ext) b g0 = Some g"
  from m obtain r where b: "b = CHR ''_'' # r" and nz: "takeWhile is_digit r \<noteq> []"
    and rest: "(case dropWhile is_digit r of
                  [] \<Rightarrow> None
                | c1 # r1 \<Rightarrow>
                    if c1 \<noteq> CHR ''_'' \<or> takeWhile is_digit r1 = [] then None
                    else (case dropWhile is_digit r1 of
                            [] \<Rightarrow> None
                          | c2 # r2 \<Rightarrow>
                              if c2 = CHR ''.'' \<and> (r2 = ext \<or> r2 = ext @ [LF])
                              then Some (takeWhile is_digit r) else None)) = Some g"
    unfolding key_match_value by (cases b) (auto split: if_splits)
  from rest obtain r1 where r1: "dropWhile is_digit r = CHR ''_'' # r1"
    "takeWhile is_digit r1 \<noteq> []"
    and rest2: "(case dropWhile is_digit r1 of
                            [] \<Rightarrow> None
                          | c2 # r2 \<Rightarrow>
                              if c2 = CHR ''.'' \<and> (r2 = ext \<or> r2 = ext @ [LF])
                              then Some (takeWhile is_digit r) else None) = Some g"
    by (cases "dropWhile is_digit r") (auto split: if_splits)
  from rest2 obtain r2 where r2: "dropWhile is_digit r1 = CHR ''.'' # r2"
    "r2 = ext \<or> r2 = ext @ [LF]" and gv: "takeWhile is_digit r = g"
    by (cases "dropWhile is_digit r1") (auto split: if_splits)
  have g: "takeWhile is_digit r = g" "g \<noteq> []" using gv nz by simp_all
  have "r = g @ CHR ''_'' # r1"
    using takeWhile_dropWhile_id[of is_digit r] g(1) r1(1) by simp
  moreover have "r1 = takeWhile is_digit r1 @ CHR ''.'' # r2"
    using takeWhile_dropWhile_id[of is_digit r1] r2(1) by simp
  moreover have "list_all is_digit g"
    using g(1) by (auto simp: list_all_iff dest: set_takeWhileD)
  moreover have "list_all is_digit (takeWhile is_digit r1)"
    by (auto simp: list_all_iff dest: set_takeWhileD)
  moreover obtain t where "r2 = ext @ t" "t = [] \<or> t = [LF]"
    using r2(2) by auto
  ultimately show "\<exists>d2 t. b = ''_'' @ g @ ''_'' @ d2 @ ''.'' @ ext @ t
        \<and> g \<noteq> [] \<and> list_all is_digit g \<and> d2 \<noteq> [] \<and> list_all is_digit d2
        \<and> (t = [] \<or> t = [LF])"
    using b g(2) r1(2)
    by (intro exI[of _ "takeWhile is_digit r1"] exI[of _ t]) simp
next
  assume "\<exists>d2 t. b = ''_'' @ g @ ''_'' @ d2 @ ''.'' @ ext @ t
        \<and> g \<noteq> [] \<and> list_all is_digit g \<and> d2 \<noteq> [] \<and> list_all is_digit d2
        \<and> (t = [] \<or> t = [LF])"
  then obtain d2 t where h: "b = ''_'' @ g @ ''_'' @ d2 @ ''.'' @ ext @ t"
    "g \<noteq> []" "list_all is_digit g" "d2 \<noteq> []" "list_all is_digit d2" "t = [] \<or> t = [LF]"
    by blast
  have nu: "\<not> is_digit (CHR ''_'')" and nd: "\<not> is_digit (CHR ''.'')"
    by (simp_all add: is_digit_def)
  have 1: "takeWhile is_digit (g @ CHR ''_'' # d2 @ CHR ''.'' # ext @ t) = g"
    "dropWhile is_digit (g @ CHR ''_'' # d2 @ CHR ''.'' # ext @ t) = CHR ''_'' # d2 @ CHR ''.'' # ext @ t"
    using run_then[OF h(3) nu] by simp_all
  have 2: "takeWhile is_digit (d2 @ CHR ''.'' # ext @ t) = d2"
    "dropWhile is_digit (d2 @ CHR ''.'' # ext @ t) = CHR ''.'' # ext @ t"
    using run_then[OF h(5) nd] by simp_all
  show "match_here (key_pattern ext) b g0 = Some g"
    unfolding key_match_value using h(1,2,4,6) 1 2 by auto
qed

lemma re_search_Some:
  "re_search p s = Some g \<Longrightarrow> \<exists>a b. s = a @ b \<and> match_here p b [] = Some g"
proof (induction s)
  case Nil
  then show ?case by simp
next
  case (Cons c cs)
  show ?case
  proof (cases "match_here p (c # cs) []")
    case (Some g')
    with Cons.prems have "g' = g" by simp
    with Some show ?thesis by (intro exI[of _ "[]"] exI[of _ "c # cs"]) simp
  next
    case None
    with Cons.prems have "re_search p cs = Some g" by simp
    from Cons.IH[OF this] obtain a b where "cs = a @ b" "match_here p b [] = Some g"
      by blast
    then show ?thesis by (intro exI[of _ "c # a"] exI[of _ b]) simp
  qed
qed

lemma split_last_underscore:
  assumes "CHR ''_'' \<notin> set d" "CHR ''_'' \<notin> set d'" "x @ CHR ''_'' # d = y @ CHR ''_'' # d'"
  shows "x = y \<and> d = d'"
proof -
  let ?P = "\<lambda>c. c \<noteq> CHR ''_''"
  have e: "rev d @ CHR ''_'' # rev x = rev d' @ CHR ''_'' # rev y"
    using arg_cong[OF assms(3), of rev] by simp
  have "list_all ?P (rev d)" "list_all ?P (rev d')"
    using assms(1,2) by (auto simp: list_all_iff)
  then have "takeWhile ?P (rev d @ CHR ''_'' # rev x) = rev d"
    "takeWhile ?P (rev d' @ CHR ''_'' # rev y) = rev d'"
    using run_then[of ?P _ "CHR ''_''"] by simp_all
  with e have "rev d = rev d'" by simp
  then have "d = d'" by simp
  with assms(3) show ?thesis by simp
qed

lemma digits_no_underscore: "list_all is_digit d \<Longrightarrow> CHR ''_'' \<notin> set d"
  by (auto simp: list_all_iff is_digit_def)

lemma digits_no_LF: "list_all is_digit d \<Longrightarrow> LF \<notin> set d"
  by (auto simp: list_all_iff is_digit_def LF_def)

lemma digit_char_is_digit: "d < 10 \<Longrightarrow> is_digit (digit_char d)"
  by (simp add: is_digit_def digit_char_def)

lemma digit_char_value: "d < 10 \<Longrightarrow> of_char (digit_char d) - 48 = d"
  by (simp add: digit_char_def)

lemma str_nat_digits: "list_all is_digit (str_nat n) \<and> str_nat n \<noteq> []"
proof (induction n rule: str_nat.induct)
  case (1 n)
  show ?case
  proof (cases "n < 10")
    case True
    then show ?thesis by (simp add: str_nat.simps[of n] digit_char_is_digit)
  next
    case False
    with 1 show ?thesis
      by (simp add: str_nat.simps[of n] digit_char_is_digit)
  qed
qed

lemma py_int_snoc: "py_int (xs @ [c]) = 10 * py_int xs + (of_char c - 48)"
  by (simp add: py_int_def)

lemma py_int_str_nat: "py_int (str_nat n) = n"
proof (induction n rule: str_nat.induct)
  case (1 n)
  show ?case
  proof (cases "n < 10")
    case True
    then show ?thesis
      using py_int_snoc[of "[]" "digit_char n"]
      by (simp add: str_nat.simps[of n] digit_char_value py_int_def)
  next
    case False
    with 1 have "py_int (str_nat (n div 10)) = n div 10" by simp
    with False show ?thesis
      by (simp add: str_nat.simps[of n] py_int_snoc digit_char_value)
  qed
qed

lemma str_nat_inj: "str_nat i = str_nat k \<Longrightarrow> i = k"
  by (metis py_int_str_nat)

lemma ext_end:
  assumes "x @ ''.pdb'' @ t = y @ ''.pdb''" "t = [] \<or> t = [LF]"
  shows "t = [] \<and> x = y"
proof (cases "t = []")
  case True
  with assms(1) show ?thesis by simp
next
  case False
  with assms(2) have t: "t = [LF]" by simp
  from assms(1) t have "x @ ''.pdb'' @ [LF] = y @ ''.pdb''" by simp
  then have "last (x @ ''.pdb'' @ [LF]) = last (y @ ''.pdb'')" by (rule arg_cong)
  then have "LF = CHR ''b''" by simp
  then show ?thesis by (simp add: LF_def)
qed


subsection \<open>Selection and order\<close>

lemma key_of_two_tokens:
  assumes "d1 \<noteq> []" "list_all is_digit d1" "d2 \<noteq> []" "list_all is_digit d2"
  shows "sort_key_of ''pdb'' (a @ ''_'' @ d1 @ ''_'' @ d2 @ ''.pdb'') = Inr (py_int d1)"
proof -
  let ?f = "a @ ''_'' @ d1 @ ''_'' @ d2 @ ''.pdb''"
  have here: "match_here (key_pattern ''pdb'') (''_'' @ d1 @ ''_'' @ d2 @ ''.pdb'') [] = Some d1"
    unfolding key_match_iff using assms
    by (intro exI[of _ d2] exI[of _ "[]"]) simp
  then have "\<exists>x b. ?f = x @ b \<and> match_here (key_pattern ''pdb'') b [] \<noteq> None"
    by (intro exI[of _ a] exI[of _ "''_'' @ d1 @ ''_'' @ d2 @ ''.pdb''"]) simp
  then have "re_search (key_pattern ''pdb'') ?f \<noteq> None"
    by (simp only: re_search_iff)
  then obtain g where g: "re_search (key_pattern ''pdb'') ?f = Some g" by blast
  from re_search_Some[OF g] obtain x b where xb: "?f = x @ b"
    "match_here (key_pattern ''pdb'') b [] = Some g" by blast
  from xb(2) obtain e2 t where b: "b = ''_'' @ g @ ''_'' @ e2 @ ''.'' @ ''pdb'' @ t"
    "list_all is_digit g" "list_all is_digit e2" "t = [] \<or> t = [LF]"
    unfolding key_match_iff by blast
  have eq: "(x @ ''_'' @ g @ ''_'' @ e2) @ ''.pdb'' @ t = (a @ ''_'' @ d1 @ ''_'' @ d2) @ ''.pdb''"
    using xb(1) b(1) by simp
  from ext_end[OF eq b(4)] have "x @ ''_'' @ g @ ''_'' @ e2 = a @ ''_'' @ d1 @ ''_'' @ d2"
    by simp
  then have "(x @ ''_'' @ g) @ CHR ''_'' # e2 = (a @ ''_'' @ d1) @ CHR ''_'' # d2"
    by simp
  from split_last_underscore[OF digits_no_underscore[OF b(3)]
      digits_no_underscore[OF assms(4)] this]
  have "x @ CHR ''_'' # g = a @ CHR ''_'' # d1" by simp
  from split_last_underscore[OF digits_no_underscore[OF b(2)]
      digits_no_underscore[OF assms(2)] this]
  have "g = d1" by simp
  with g show ?thesis by (simp add: sort_key_of_def)
qed

lemma selected_convention:
  "selected (pattern_pdb i) (dir @ ''folded_'' @ str_nat e @ ''_'' @ str_nat k @ ''.pdb'')
     \<longleftrightarrow> k = i"
proof
  assume "selected (pattern_pdb i) (dir @ ''folded_'' @ str_nat e @ ''_'' @ str_nat k @ ''.pdb'')"
  then obtain a m t where h:
    "dir @ ''folded_'' @ str_nat e @ ''_'' @ str_nat k @ ''.pdb''
       = a @ ''folded_'' @ m @ ''_'' @ str_nat i @ ''.pdb'' @ t"
    "t = [] \<or> t = [LF]"
    unfolding selected_pdb_iff by blast
  have "(a @ ''folded_'' @ m @ ''_'' @ str_nat i) @ ''.pdb'' @ t
      = (dir @ ''folded_'' @ str_nat e @ ''_'' @ str_nat k) @ ''.pdb''"
    using h(1) by simp
  from ext_end[OF this h(2)]
  have "(a @ ''folded_'' @ m) @ CHR ''_'' # str_nat i
      = (dir @ ''folded_'' @ str_nat e) @ CHR ''_'' # str_nat k"
    by simp
  from split_last_underscore[OF _ _ this] str_nat_digits digits_no_underscore
  have "str_nat i = str_nat k" by blast
  then show "k = i" using str_nat_inj by blast
next
  assume "k = i"
  then show "selected (pattern_pdb i) (dir @ ''folded_'' @ str_nat e @ ''_'' @ str_nat k @ ''.pdb'')"
    unfolding selected_pdb_iff using str_nat_digits[of e] digits_no_LF
    by (intro exI[of _ dir] exI[of _ "str_nat e"] exI[of _ "[]"]) auto
qed

lemma key_convention:
  "sort_key_of ''pdb'' (dir @ ''folded_'' @ str_nat e @ ''_'' @ str_nat k @ ''.pdb'') = Inr e"
  using key_of_two_tokens[of "str_nat e" "str_nat k" "dir @ ''folded''"]
    str_nat_digits[of e] str_nat_digits[of k]
  by (simp add: py_int_str_nat)

lemma keyed_Inr:
  "keyed key xs = Inr ks \<Longrightarrow> map snd ks = xs \<and> list_all (\<lambda>p. key (snd p) = Inr (fst p)) ks"
  by (induction xs arbitrary: ks) (auto split: sum.splits)

lemma map_results_pairs:
  "list_all (\<lambda>p. key (snd p) = Inr (fst p)) ps \<Longrightarrow>
   map_results key (map snd ps) = Inr (map fst ps)"
  by (induction ps) auto

lemma py_sorted_Inr:
  assumes "py_sorted key xs = Inr ys"
  shows "mset ys = mset xs"
    and "\<exists>ks. map_results key ys = Inr ks \<and> sorted ks"
    and "filter (\<lambda>y. key y = Inr n) ys = filter (\<lambda>y. key y = Inr n) xs"
proof -
  from assms obtain ks where ks: "keyed key xs = Inr ks"
    and ys: "ys = map snd (sort_key fst ks)"
    by (auto simp: py_sorted_def split: sum.splits)
  from keyed_Inr[OF ks] have xs: "map snd ks = xs"
    and ok: "list_all (\<lambda>p. key (snd p) = Inr (fst p)) ks" by simp_all
  have "mset ys = image_mset snd (mset (sort_key fst ks))"
    by (simp add: ys)
  also have "\<dots> = mset (map snd ks)" by simp
  finally show "mset ys = mset xs" by (simp add: xs)
  have ok': "list_all (\<lambda>p. key (snd p) = Inr (fst p)) (sort_key fst ks)"
    using ok by (simp add: list_all_iff)
  have "map_results key ys = Inr (map fst (sort_key fst ks))"
    unfolding ys by (rule map_results_pairs[OF ok'])
  moreover have "sorted (map fst (sort_key fst ks))"
    by (rule sorted_sort_key)
  ultimately show "\<exists>ks. map_results key ys = Inr ks \<and> sorted ks" by blast
  have c: "filter (\<lambda>p. key (snd p) = Inr n) l = filter (\<lambda>p. fst p = n) l"
    if "list_all (\<lambda>p. key (snd p) = Inr (fst p)) l" for l
    using that by (induction l) auto
  have "filter (\<lambda>y. key y = Inr n) ys = map snd (filter (\<lambda>p. key (snd p) = Inr n) (sort_key fst ks))"
    by (simp add: ys filter_map comp_def)
  also have "\<dots> = map snd (filter (\<lambda>p. fst p = n) (sort_key fst ks))"
    by (simp add: c[OF ok'])
  also have "\<dots> = map snd (filter (\<lambda>p. fst p = n) ks)"
    by (simp add: sort_key_stable)
  also have "\<dots> = map snd (filter (\<lambda>p. key (snd p) = Inr n) ks)"
    by (simp add: c[OF ok])
  also have "\<dots> = filter (\<lambda>y. key y = Inr n) (map snd ks)"
    by (simp add: filter_map comp_def)
  finally show "filter (\<lambda>y. key y = Inr n) ys = filter (\<lambda>y. key y = Inr n) xs"
    by (simp add: xs)
qed

text \<open>
  Claim C7, as amended. For every sequence-file index \<open>i\<close> the matcher selects exactly the
  candidate paths that hold \<open>folded_\<close>, then any characters but a newline, then \<open>_<i>.pdb\<close>
  at the end (a final newline apart): \<open>i\<close> is the last numeric token. The sort key is the
  numeric token before it, so that a file named \<open>folded_<entryIndex>_<fileIndex>.pdb\<close> is
  selected exactly for its file index and has its entry index as key. The result holds the
  selected files, each as often as the pool does, in ascending order of their keys, files
  of equal key in the order of the pool.
\<close>

theorem matcher_selection_and_order:
  "(selected (pattern_pdb i) f \<longleftrightarrow>
      (\<exists>a m t. f = a @ ''folded_'' @ m @ ''_'' @ str_nat i @ ''.pdb'' @ t
         \<and> LF \<notin> set m \<and> (t = [] \<or> t = [LF])))
   \<and> (selected (pattern_pdb i) (dir @ ''folded_'' @ str_nat e @ ''_'' @ str_nat k @ ''.pdb'')
        \<longleftrightarrow> k = i)
   \<and> sort_key_of ''pdb'' (dir @ ''folded_'' @ str_nat e @ ''_'' @ str_nat k @ ''.pdb'') = Inr e
   \<and> (\<forall>fs. matching_pdb_files i pool = Inr fs \<longrightarrow>
         mset fs = mset (filter (selected (pattern_pdb i)) pool)
         \<and> (\<exists>ks. map_results (sort_key_of ''pdb'') fs = Inr ks \<and> sorted ks)
         \<and> (\<forall>n. filter (\<lambda>y. sort_key_of ''pdb'' y = Inr n) fs =
                  filter (\<lambda>y. sort_key_of ''pdb'' y = Inr n)
                    (filter (selected (pattern_pdb i)) pool)))"
proof (intro conjI allI impI)
  show "selected (pattern_pdb i) f \<longleftrightarrow>
      (\<exists>a m t. f = a @ ''folded_'' @ m @ ''_'' @ str_nat i @ ''.pdb'' @ t
         \<and> LF \<notin> set m \<and> (t = [] \<or> t = [LF]))"
    by (rule selected_pdb_iff)
  show "selected (pattern_pdb i) (dir @ ''folded_'' @ str_nat e @ ''_'' @ str_nat k @ ''.pdb'')
        \<longleftrightarrow> k = i"
    by (rule selected_convention)
  show "sort_key_of ''pdb'' (dir @ ''folded_'' @ str_nat e @ ''_'' @ str_nat k @ ''.pdb'') = Inr e"
    by (rule key_convention)
next
  fix fs assume "matching_pdb_files i pool = Inr fs"
  then have p: "py_sorted (sort_key_of ''pdb'') (filter (selected (pattern_pdb i)) pool) = Inr fs"
    by (simp add: matching_pdb_files_def)
  show "mset fs = mset (filter (selected (pattern_pdb i)) pool)"
    by (rule py_sorted_Inr(1)[OF p])
  show "\<exists>ks. map_results (sort_key_of ''pdb'') fs = Inr ks \<and> sorted ks"
    by (rule py_sorted_Inr(2)[OF p])
  show "filter (\<lambda>y. sort_key_of ''pdb'' y = Inr n) fs =
                  filter (\<lambda>y. sort_key_of ''pdb'' y = Inr n)
                    (filter (selected (pattern_pdb i)) pool)" for n
    by (rule py_sorted_Inr(3)[OF p])
qed

theorem matcher_selection_and_order_witness:
  "matching_pdb_files 3 [''folded_2_3.pdb'', ''folded_0_1.pdb'', ''folded_1_3.pdb'']
     = Inr [''folded_1_3.pdb'', ''folded_2_3.pdb'']
   \<and> mset [''folded_1_3.pdb'', ''folded_2_3.pdb''] =
       mset (filter (selected (pattern_pdb 3))
               [''folded_2_3.pdb'', ''folded_0_1.pdb'', ''folded_1_3.pdb''])
   \<and> (\<exists>ks. map_results (sort_key_of ''pdb'') [''folded_1_3.pdb'', ''folded_2_3.pdb'']
          = Inr ks \<and> sorted ks)"
proof -
  have m: "matching_pdb_files 3 [''folded_2_3.pdb'', ''folded_0_1.pdb'', ''folded_1_3.pdb'']
     = Inr [''folded_1_3.pdb'', ''folded_2_3.pdb'']"
    by code_simp
  from matcher_selection_and_order
    [of 3 "[]" "[]" 0 0 "[''folded_2_3.pdb'', ''folded_0_1.pdb'', ''folded_1_3.pdb'']"]
  have "\<forall>fs. matching_pdb_files 3 [''folded_2_3.pdb'', ''folded_0_1.pdb'', ''folded_1_3.pdb'']
            = Inr fs \<longrightarrow>
         mset fs = mset (filter (selected (pattern_pdb 3))
               [''folded_2_3.pdb'', ''folded_0_1.pdb'', ''folded_1_3.pdb''])
         \<and> (\<exists>ks. map_results (sort_key_of ''pdb'') fs = Inr ks \<and> sorted ks)"
    by blast
  with m show ?thesis by blast
qed

text \<open>
  Claim C7, as stated, fails: with the files of file index 0 named by the suffix
  \<open>_<fileIndex>_<entryIndex>.pdb\<close>, entries 1 and 0, the matcher for \<open>i = 0\<close> does not return
  the two files in the order of their entry index (it selects \<open>folded_0_0.pdb\<close> alone, whose
  last token is 0).
\<close>

theorem matcher_claimed_convention_counterexample:
  "matching_pdb_files 0 [claimed_name 0 1, claimed_name 0 0]
     \<noteq> Inr [claimed_name 0 0, claimed_name 0 1]"
  by code_simp


subsection \<open>Failure of the sort key\<close>











end
